theory Spec2Isabelle
  imports Main "HOL-Library.Product_Lexorder"
begin

section \<open>Conway's Game of Life on a sparse set of live cells\<close>

text \<open>
  The program keeps the board as a Python set of integer pairs. Two functions of
  \<^verbatim>\<open>main.py\<close> carry the algorithm: \<^verbatim>\<open>get_neighbour_set\<close> and
  \<^verbatim>\<open>next_board_state\<close>. Python integers are unbounded, so coordinates are
  \<^typ>\<open>int\<close>.
\<close>

type_synonym cell = "int \<times> int"

text \<open>The only exception the two functions can raise: \<^verbatim>\<open>set.remove\<close> of an absent element.\<close>

datatype error = KeyError

subsection \<open>Python building blocks\<close>

text \<open>\<^verbatim>\<open>range(a, b)\<close>: the integers from \<open>a\<close> up to \<open>b - 1\<close>, empty when \<open>b \<le> a\<close>.\<close>

definition range_py :: "int \<Rightarrow> int \<Rightarrow> int list" where
  "range_py a b = [a..b - 1]"

text \<open>\<^verbatim>\<open>s.remove(x)\<close> raises \<^verbatim>\<open>KeyError\<close> when \<open>x\<close> is not in \<open>s\<close>.\<close>

definition set_remove :: "'a \<Rightarrow> 'a set \<Rightarrow> error + 'a set" where
  "set_remove x s = (if x \<in> s then Inr (s - {x}) else Inl KeyError)"

text \<open>
  A \<^verbatim>\<open>for\<close> loop over a Python set visits every element once, in an order that the
  container chooses. The order is a parameter of the model: a function from a finite set
  to the list of its elements.
\<close>

definition iteration_order :: "(cell set \<Rightarrow> cell list) \<Rightarrow> bool" where
  "iteration_order it = (\<forall>S. finite S \<longrightarrow> set (it S) = S \<and> distinct (it S))"

subsection \<open>\<^verbatim>\<open>get_neighbour_set\<close>\<close>

text \<open>
  \<^verbatim>\<open>
  def get_neighbour_set(cell, cell_range=1):
      cell_x, cell_y = cell
      neighbour_set = set(itertools.product(
          [cell_x + mod for mod in range(-cell_range, cell_range+1)],
          [cell_y + mod for mod in range(-cell_range, cell_range+1)]))
      neighbour_set.remove(cell)
      return neighbour_set
  \<close>
\<close>

definition get_neighbour_set :: "cell \<Rightarrow> int \<Rightarrow> error + cell set" where
  "get_neighbour_set cell cell_range =
     (case cell of (cell_x, cell_y) \<Rightarrow>
        set_remove cell
          (set (List.product
             (map (\<lambda>m. cell_x + m) (range_py (- cell_range) (cell_range + 1)))
             (map (\<lambda>m. cell_y + m) (range_py (- cell_range) (cell_range + 1))))))"

subsection \<open>\<^verbatim>\<open>next_board_state\<close>\<close>

text \<open>
  The inner loop, over the neighbours of one live cell:
  \<^verbatim>\<open>
  for neighbour_cell in neighbour_set:
      if neighbour_cell in live_cells or neighbour_cell in next_cells:
          pass
      neighbour_neighbour_set = get_neighbour_set(neighbour_cell)
      if len(neighbour_neighbour_set.intersection(live_cells)) == 3:
          next_cells.add(neighbour_cell)
  \<close>
  The first \<^verbatim>\<open>if\<close> only executes \<^verbatim>\<open>pass\<close>: both of its branches leave
  \<^verbatim>\<open>next_cells\<close> as it is and fall through to the rest of the body.
\<close>

fun neighbour_loop :: "cell set \<Rightarrow> cell list \<Rightarrow> cell set \<Rightarrow> error + cell set" where
  "neighbour_loop live_cells [] next_cells = Inr next_cells"
| "neighbour_loop live_cells (neighbour_cell # rest) next_cells =
     (let next_cells1 =
            (if neighbour_cell \<in> live_cells \<or> neighbour_cell \<in> next_cells
             then next_cells else next_cells)
      in case get_neighbour_set neighbour_cell 1 of
           Inl e \<Rightarrow> Inl e
         | Inr neighbour_neighbour_set \<Rightarrow>
             neighbour_loop live_cells rest
               (if card (neighbour_neighbour_set \<inter> live_cells) = 3
                then insert neighbour_cell next_cells1 else next_cells1))"

text \<open>
  The outer loop, over the live cells:
  \<^verbatim>\<open>
  for live_cell in live_cells:
      neighbour_set = get_neighbour_set(live_cell)
      if len(neighbour_set.intersection(live_cells)) in [2, 3]:
          next_cells.add(live_cell)
      for neighbour_cell in neighbour_set: ...
  \<close>
\<close>

fun live_loop ::
  "(cell set \<Rightarrow> cell list) \<Rightarrow> cell set \<Rightarrow> cell list \<Rightarrow> cell set \<Rightarrow> error + cell set" where
  "live_loop it live_cells [] next_cells = Inr next_cells"
| "live_loop it live_cells (live_cell # rest) next_cells =
     (case get_neighbour_set live_cell 1 of
        Inl e \<Rightarrow> Inl e
      | Inr neighbour_set \<Rightarrow>
          (case neighbour_loop live_cells (it neighbour_set)
                  (if card (neighbour_set \<inter> live_cells) \<in> set [2, 3]
                   then insert live_cell next_cells else next_cells) of
             Inl e \<Rightarrow> Inl e
           | Inr next_cells' \<Rightarrow> live_loop it live_cells rest next_cells'))"

text \<open>
  \<^verbatim>\<open>
  def next_board_state(live_cells):
      next_cells = set()
      for live_cell in live_cells: ...
      return next_cells
  \<close>
\<close>

definition next_board_state :: "(cell set \<Rightarrow> cell list) \<Rightarrow> cell set \<Rightarrow> error + cell set" where
  "next_board_state it live_cells = live_loop it live_cells (it live_cells) {}"

subsection \<open>Notions of the specification\<close>

text \<open>
  The Moore neighbourhood of radius \<open>r\<close> of a cell, as the specification words it: the
  cells \<open>(cx + dx, cy + dy)\<close> with \<open>dx\<close> and \<open>dy\<close> in \<open>[-r, r]\<close>, without
  \<open>(dx, dy) = (0, 0)\<close>.
\<close>

definition moore :: "int \<Rightarrow> cell \<Rightarrow> cell set" where
  "moore r c =
     (\<lambda>(dx, dy). (fst c + dx, snd c + dy)) ` ({- r..r} \<times> {- r..r} - {(0, 0)})"

text \<open>The Chebyshev distance of two cells.\<close>

definition chebyshev :: "cell \<Rightarrow> cell \<Rightarrow> int" where
  "chebyshev a b = max \<bar>fst a - fst b\<bar> \<bar>snd a - snd b\<bar>"

text \<open>The number of live cells among the eight neighbours of a cell.\<close>

definition live_neighbours :: "cell set \<Rightarrow> cell \<Rightarrow> nat" where
  "live_neighbours L c = card (moore 1 c \<inter> L)"

text \<open>
  The rule of the game as the specification states it: a live cell survives with two or
  three live neighbours, a dead cell is born with exactly three.
\<close>

definition life :: "cell set \<Rightarrow> cell set" where
  "life L = {c. (c \<in> L \<and> live_neighbours L c \<in> {2, 3}) \<or> (c \<notin> L \<and> live_neighbours L c = 3)}"

text \<open>
  Several generations in a row, each one computed by \<^verbatim>\<open>next_board_state\<close> from the
  result of the one before; an exception ends the run.
\<close>

fun generations :: "(cell set \<Rightarrow> cell list) \<Rightarrow> nat \<Rightarrow> cell set \<Rightarrow> error + cell set" where
  "generations it 0 L = Inr L"
| "generations it (Suc n) L =
     (case next_board_state it L of Inl e \<Rightarrow> Inl e | Inr L' \<Rightarrow> generations it n L')"

text \<open>A pattern moved by a fixed offset.\<close>

definition translate :: "cell \<Rightarrow> cell set \<Rightarrow> cell set" where
  "translate d L = (\<lambda>(x, y). (x + fst d, y + snd d)) ` L"

text \<open>
  The glider in its usual orientation (rows from top to bottom, \<open>y\<close> growing downwards
  as on the screen of the program):
  \<^verbatim>\<open>
  . O .
  . . O
  O O O
  \<close>
\<close>

definition glider :: "cell set" where
  "glider = {(1, 0), (2, 1), (0, 2), (1, 2), (2, 2)}"

section \<open>The neighbourhood\<close>

lemma set_range_py: "set (range_py a b) = {a..b - 1}"
  by (simp add: range_py_def)

lemma shift_interval: "(\<lambda>m. a + m) ` {- r..r} = {a - r..a + r}" for a :: int
  by (auto simp: image_iff intro: bexI [where x = "x - a" for x])

lemma moore_box: "moore r c = {fst c - r..fst c + r} \<times> {snd c - r..snd c + r} - {c}"
proof (rule set_eqI)
  fix n :: cell
  obtain x y where n: "n = (x, y)" by (cases n)
  obtain cx cy where c: "c = (cx, cy)" by (cases c)
  show "n \<in> moore r c \<longleftrightarrow> n \<in> {fst c - r..fst c + r} \<times> {snd c - r..snd c + r} - {c}"
  proof
    assume "n \<in> moore r c"
    then show "n \<in> {fst c - r..fst c + r} \<times> {snd c - r..snd c + r} - {c}"
      by (auto simp: moore_def n c)
  next
    assume a: "n \<in> {fst c - r..fst c + r} \<times> {snd c - r..snd c + r} - {c}"
    then have "(x - cx, y - cy) \<in> {- r..r} \<times> {- r..r} - {(0, 0)}"
      by (auto simp: n c)
    moreover have "n = (\<lambda>(dx, dy). (fst c + dx, snd c + dy)) (x - cx, y - cy)"
      by (simp add: n c)
    ultimately show "n \<in> moore r c"
      unfolding moore_def by (rule image_eqI [rotated])
  qed
qed

lemma finite_moore: "finite (moore r c)"
  by (simp add: moore_box)

lemma get_neighbour_set_box:
  "get_neighbour_set (cx, cy) r =
     (if 0 \<le> r then Inr ({cx - r..cx + r} \<times> {cy - r..cy + r} - {(cx, cy)}) else Inl KeyError)"
  by (auto simp: get_neighbour_set_def set_remove_def set_range_py shift_interval)

lemma get_neighbour_set_moore:
  "0 \<le> r \<Longrightarrow> get_neighbour_set c r = Inr (moore r c)"
  by (cases c) (simp add: get_neighbour_set_box moore_box)

lemma get_neighbour_set_negative:
  "r < 0 \<Longrightarrow> get_neighbour_set c r = Inl KeyError"
  by (cases c) (simp add: get_neighbour_set_box)

lemma moore_zero: "moore 0 c = {}"
  by (auto simp: moore_box)

lemma card_moore:
  assumes "0 \<le> r"
  shows "int (card (moore r c)) = (2 * r + 1)\<^sup>2 - 1"
proof -
  let ?B = "{fst c - r..fst c + r} \<times> {snd c - r..snd c + r}"
  have cB: "card ?B = nat (2 * r + 1) * nat (2 * r + 1)"
    by (simp add: card_cartesian_product)
  have "c \<in> ?B"
    using assms by (cases c) simp
  then have "card (moore r c) = card ?B - 1"
    by (simp add: moore_box)
  moreover have "1 \<le> card ?B"
    using assms by (simp add: cB)
  ultimately have "int (card (moore r c)) = int (card ?B) - 1"
    by simp
  also have "int (card ?B) = (2 * r + 1)\<^sup>2"
    using assms by (simp add: cB power2_eq_square)
  finally show ?thesis .
qed

lemma moore_sym: "n \<in> moore r c \<longleftrightarrow> c \<in> moore r n"
  by (cases n; cases c) (auto simp: moore_box)

lemma moore_chebyshev: "n \<in> moore 1 c \<longleftrightarrow> n \<noteq> c \<and> chebyshev n c \<le> 1"
  by (cases n; cases c) (auto simp: moore_box chebyshev_def)

section \<open>The loops\<close>

lemma neighbour_loop_eq:
  "neighbour_loop L ns acc = Inr (acc \<union> {n \<in> set ns. live_neighbours L n = 3})"
proof (induction ns arbitrary: acc)
  case Nil
  show ?case by simp
next
  case (Cons n ns)
  have g: "get_neighbour_set n 1 = Inr (moore 1 n)"
    by (simp add: get_neighbour_set_moore)
  show ?case
    by (auto simp: g Cons.IH live_neighbours_def)
qed

lemma live_loop_eq:
  assumes it: "iteration_order it"
  shows "live_loop it L cs acc =
     Inr (acc \<union> {c \<in> set cs. live_neighbours L c \<in> {2, 3}}
              \<union> {n. \<exists>c \<in> set cs. n \<in> moore 1 c \<and> live_neighbours L n = 3})"
proof (induction cs arbitrary: acc)
  case Nil
  show ?case by simp
next
  case (Cons c cs)
  have g: "get_neighbour_set c 1 = Inr (moore 1 c)"
    by (simp add: get_neighbour_set_moore)
  have s: "set (it (moore 1 c)) = moore 1 c"
    using it finite_moore by (simp add: iteration_order_def)
  show ?case
    by (auto simp: g s neighbour_loop_eq Cons.IH live_neighbours_def)
qed

lemma three_has_live_neighbour:
  assumes "live_neighbours L n = 3"
  shows "\<exists>c \<in> L. n \<in> moore 1 c"
proof -
  have "moore 1 n \<inter> L \<noteq> {}"
    using assms unfolding live_neighbours_def by auto
  then obtain c where "c \<in> moore 1 n" "c \<in> L" by blast
  then show ?thesis using moore_sym by blast
qed

lemma next_board_state_life:
  assumes it: "iteration_order it" and fin: "finite L"
  shows "next_board_state it L = Inr (life L)"
proof -
  have s: "set (it L) = L"
    using it fin by (simp add: iteration_order_def)
  have "L \<inter> {c. live_neighbours L c \<in> {2, 3}}
          \<union> {n. \<exists>c \<in> L. n \<in> moore 1 c \<and> live_neighbours L n = 3} = life L"
    using three_has_live_neighbour unfolding life_def by auto
  then show ?thesis
    unfolding next_board_state_def live_loop_eq [OF it] s by (simp add: Int_def)
qed

lemma life_local: "life L \<subseteq> L \<union> (\<Union>l \<in> L. moore 1 l)"
  using three_has_live_neighbour unfolding life_def by auto

lemma finite_life: "finite L \<Longrightarrow> finite (life L)"
  by (rule finite_subset [OF life_local]) (simp add: finite_moore)

lemma iteration_order_sorted: "iteration_order sorted_list_of_set"
  by (simp add: iteration_order_def)

lemma iteration_order_reversed: "iteration_order (rev \<circ> sorted_list_of_set)"
  by (simp add: iteration_order_def)

lemma next_board_state_any_order:
  assumes "iteration_order it" and "finite L"
  shows "next_board_state it L = next_board_state sorted_list_of_set L"
  using assms by (simp add: next_board_state_life iteration_order_sorted)

section \<open>Concrete patterns under one fixed iteration order\<close>

lemma blinker_sorted:
  "next_board_state sorted_list_of_set {(0, 0), (1, 0), (2, 0)} = Inr {(1, - 1), (1, 0), (1, 1)}"
  "next_board_state sorted_list_of_set {(1, - 1), (1, 0), (1, 1)} = Inr {(0, 0), (1, 0), (2, 0)}"
  by code_simp+

lemma block_sorted:
  "next_board_state sorted_list_of_set {(0, 0), (1, 0), (0, 1), (1, 1)}
     = Inr {(0, 0), (1, 0), (0, 1), (1, 1)}"
  by code_simp

lemma glider_sorted:
  "next_board_state sorted_list_of_set {(1, 0), (2, 1), (0, 2), (1, 2), (2, 2)}
     = Inr {(0, 1), (2, 1), (1, 2), (2, 2), (1, 3)}"
  "next_board_state sorted_list_of_set {(0, 1), (2, 1), (1, 2), (2, 2), (1, 3)}
     = Inr {(2, 1), (0, 2), (2, 2), (1, 3), (2, 3)}"
  "next_board_state sorted_list_of_set {(2, 1), (0, 2), (2, 2), (1, 3), (2, 3)}
     = Inr {(1, 1), (2, 2), (3, 2), (1, 3), (2, 3)}"
  "next_board_state sorted_list_of_set {(1, 1), (2, 2), (3, 2), (1, 3), (2, 3)}
     = Inr {(2, 1), (3, 2), (1, 3), (2, 3), (3, 3)}"
  by code_simp+

lemma translate_glider: "translate (1, 1) glider = {(2, 1), (3, 2), (1, 3), (2, 3), (3, 3)}"
  by (auto simp: translate_def glider_def)

section \<open>The claims\<close>

text \<open>
  C1. For every finite set \<open>L\<close> of cells and every iteration order of the containers,
  \<^verbatim>\<open>next_board_state(L)\<close> returns a set that contains a cell \<open>c\<close> if and only if
  either \<open>c\<close> is in \<open>L\<close> and two or three cells of its Moore neighbourhood of radius 1
  are in \<open>L\<close>, or \<open>c\<close> is not in \<open>L\<close> and exactly three of them are.
\<close>

theorem next_board_state_rules:
  assumes "iteration_order it" and "finite L"
  shows "\<exists>R. next_board_state it L = Inr R \<and>
           (\<forall>c. c \<in> R \<longleftrightarrow>
                (c \<in> L \<and> (card (moore 1 c \<inter> L) = 2 \<or> card (moore 1 c \<inter> L) = 3))
              \<or> (c \<notin> L \<and> card (moore 1 c \<inter> L) = 3))"
proof -
  have "next_board_state it L = Inr (life L)"
    using assms by (rule next_board_state_life)
  moreover have "\<forall>c. c \<in> life L \<longleftrightarrow>
                (c \<in> L \<and> (card (moore 1 c \<inter> L) = 2 \<or> card (moore 1 c \<inter> L) = 3))
              \<or> (c \<notin> L \<and> card (moore 1 c \<inter> L) = 3)"
    by (simp add: life_def live_neighbours_def)
  ultimately show ?thesis by blast
qed

theorem next_board_state_rules_witness:
  "iteration_order sorted_list_of_set \<and> finite {(0, 0), (1, 0), (2, 0 :: int) :: cell} \<and>
   (\<exists>R. next_board_state sorted_list_of_set {(0, 0), (1, 0), (2, 0)} = Inr R \<and>
      (\<forall>c. c \<in> R \<longleftrightarrow>
          (c \<in> {(0, 0), (1, 0), (2, 0)}
             \<and> (card (moore 1 c \<inter> {(0, 0), (1, 0), (2, 0)}) = 2
                  \<or> card (moore 1 c \<inter> {(0, 0), (1, 0), (2, 0)}) = 3))
        \<or> (c \<notin> {(0, 0), (1, 0), (2, 0)}
             \<and> card (moore 1 c \<inter> {(0, 0), (1, 0), (2, 0)}) = 3)))"
proof -
  have a: "iteration_order sorted_list_of_set"
    by (simp add: iteration_order_def)
  have b: "finite {(0, 0), (1, 0), (2, 0 :: int) :: cell}"
    by simp
  show ?thesis
    using a b next_board_state_rules [OF a b] by (intro conjI)
qed

text \<open>
  C2. For every cell and every radius of at least 1, \<^verbatim>\<open>get_neighbour_set\<close> returns
  exactly the cells \<open>(cx + dx, cy + dy)\<close> with \<open>dx\<close> and \<open>dy\<close> in \<open>[-radius, radius]\<close>
  other than \<open>(dx, dy) = (0, 0)\<close>, and this set has \<open>(2 * radius + 1)\<^sup>2 - 1\<close> elements.
\<close>

theorem get_neighbour_set_exact:
  assumes "1 \<le> r"
  shows "get_neighbour_set (cx, cy) r
           = Inr ((\<lambda>(dx, dy). (cx + dx, cy + dy)) ` ({- r..r} \<times> {- r..r} - {(0, 0)}))
       \<and> int (card ((\<lambda>(dx, dy). (cx + dx, cy + dy)) ` ({- r..r} \<times> {- r..r} - {(0, 0)})))
           = (2 * r + 1)\<^sup>2 - 1"
proof -
  have r: "0 \<le> r" using assms by simp
  have m: "(\<lambda>(dx, dy). (cx + dx, cy + dy)) ` ({- r..r} \<times> {- r..r} - {(0, 0)}) = moore r (cx, cy)"
    by (simp add: moore_def)
  show ?thesis
    unfolding m using get_neighbour_set_moore [OF r] card_moore [OF r] by simp
qed

theorem get_neighbour_set_exact_witness:
  "(1 :: int) \<le> 2 \<and>
   get_neighbour_set (3, - 4) 2
     = Inr ((\<lambda>(dx, dy). (3 + dx, - 4 + dy)) ` ({- 2..2} \<times> {- 2..2} - {(0, 0)})) \<and>
   int (card ((\<lambda>(dx, dy). (3 + dx, - 4 + dy :: int)) ` ({- 2..2 :: int} \<times> {- 2..2} - {(0, 0)})))
     = 24"
proof -
  have h: "(1 :: int) \<le> 2" by simp
  show ?thesis
    using h get_neighbour_set_exact [OF h, of 3 "- 4"] by simp
qed

text \<open>
  C3 as stated (every radius below 1, radius 0 included, fails) does not hold: at
  radius 0 both ranges are \<open>[0]\<close>, the product is the cell alone, the cell is removed
  without error and the call returns the empty set.
\<close>

theorem get_neighbour_set_zero_counterexample:
  "get_neighbour_set (0, 0) 0 = Inr {}"
  by (simp add: get_neighbour_set_def set_remove_def range_py_def)

text \<open>
  C3, amended to what the code does. The function checks nothing. For every cell, a
  radius below 0 makes both ranges empty, so removing the cell from the empty product
  raises \<^verbatim>\<open>KeyError\<close>; radius 0 returns the empty set without error; a radius of at
  least 1 raises no error and returns the neighbourhood.
\<close>

theorem get_neighbour_set_errors:
  "get_neighbour_set c r =
     (if r < 0 then Inl KeyError else if r = 0 then Inr {} else Inr (moore r c))"
  by (simp add: get_neighbour_set_negative get_neighbour_set_moore moore_zero)

theorem get_neighbour_set_errors_witness:
  "get_neighbour_set (5, 7) (- 1) = Inl KeyError \<and>
   get_neighbour_set (5, 7) 0 = Inr {} \<and>
   get_neighbour_set (5, 7) 1 = Inr (moore 1 (5, 7))"
  using get_neighbour_set_errors [of "(5, 7)" "- 1"]
        get_neighbour_set_errors [of "(5, 7)" 0]
        get_neighbour_set_errors [of "(5, 7)" 1]
  by simp

text \<open>
  C4. \<^verbatim>\<open>next_board_state\<close> is total: for every finite set of cells, whatever the
  coordinates, and every iteration order, the call returns a (finite) set and raises
  no error.
\<close>

theorem next_board_state_total:
  assumes "iteration_order it" and "finite L"
  shows "(\<exists>R. next_board_state it L = Inr R \<and> finite R) \<and> (\<forall>e. next_board_state it L \<noteq> Inl e)"
  using next_board_state_life [OF assms] finite_life [OF assms(2)] by simp

theorem next_board_state_total_witness:
  "iteration_order sorted_list_of_set \<and> finite {(- 5, 1000000007), (0, 0 :: int) :: cell} \<and>
   (\<exists>R. next_board_state sorted_list_of_set {(- 5, 1000000007), (0, 0)} = Inr R \<and> finite R) \<and>
   (\<forall>e. next_board_state sorted_list_of_set {(- 5, 1000000007), (0, 0)} \<noteq> Inl e)"
proof -
  have a: "iteration_order sorted_list_of_set"
    by (simp add: iteration_order_def)
  have b: "finite {(- 5, 1000000007), (0, 0 :: int) :: cell}"
    by simp
  show ?thesis
    using a b next_board_state_total [OF a b] by blast
qed

text \<open>
  C5. From the horizontal triple \<open>{(0,0), (1,0), (2,0)}\<close> one call of
  \<^verbatim>\<open>next_board_state\<close> gives the vertical triple \<open>{(1,-1), (1,0), (1,1)}\<close>, and a
  call on that gives the horizontal triple again.
\<close>

theorem blinker_period_two:
  assumes "iteration_order it"
  shows "next_board_state it {(0, 0), (1, 0), (2, 0)} = Inr {(1, - 1), (1, 0), (1, 1)}
       \<and> next_board_state it {(1, - 1), (1, 0), (1, 1)} = Inr {(0, 0), (1, 0), (2, 0)}"
  using assms by (simp add: next_board_state_any_order blinker_sorted)

theorem blinker_period_two_witness:
  "iteration_order (rev \<circ> sorted_list_of_set)
   \<and> next_board_state (rev \<circ> sorted_list_of_set) {(0, 0), (1, 0), (2, 0)}
       = Inr {(1, - 1), (1, 0), (1, 1)}
   \<and> next_board_state (rev \<circ> sorted_list_of_set) {(1, - 1), (1, 0), (1, 1)}
       = Inr {(0, 0), (1, 0), (2, 0)}"
proof -
  have a: "iteration_order (rev \<circ> sorted_list_of_set)"
    by (simp add: iteration_order_def)
  show ?thesis
    using a blinker_period_two [OF a] by blast
qed

text \<open>
  C6. The block \<open>{(0,0), (1,0), (0,1), (1,1)}\<close> is a fixed point of
  \<^verbatim>\<open>next_board_state\<close>.
\<close>

theorem block_fixed_point:
  assumes "iteration_order it"
  shows "next_board_state it {(0, 0), (1, 0), (0, 1), (1, 1)}
           = Inr {(0, 0), (1, 0), (0, 1), (1, 1)}"
  using assms by (simp add: next_board_state_any_order block_sorted)

theorem block_fixed_point_witness:
  "iteration_order (rev \<circ> sorted_list_of_set)
   \<and> next_board_state (rev \<circ> sorted_list_of_set) {(0, 0), (1, 0), (0, 1), (1, 1)}
       = Inr {(0, 0), (1, 0), (0, 1), (1, 1)}"
proof -
  have a: "iteration_order (rev \<circ> sorted_list_of_set)"
    by (simp add: iteration_order_def)
  show ?thesis
    using a block_fixed_point [OF a] by blast
qed

text \<open>
  C7. Four calls of \<^verbatim>\<open>next_board_state\<close> in a row, starting from the five-cell glider,
  give the glider with every cell moved by \<open>(+1, +1)\<close>.
\<close>

theorem glider_four_generations:
  assumes "iteration_order it"
  shows "generations it 4 glider = Inr (translate (1, 1) glider)"
proof -
  have f: "next_board_state it S = next_board_state sorted_list_of_set S" if "finite S" for S
    using assms that by (rule next_board_state_any_order)
  have "generations it (Suc (Suc (Suc (Suc 0)))) {(1, 0), (2, 1), (0, 2), (1, 2), (2, 2)}
          = Inr {(2, 1), (3, 2), (1, 3), (2, 3), (3, 3)}"
    by (simp add: f glider_sorted)
  then show ?thesis
    unfolding translate_glider by (simp add: numeral_eq_Suc glider_def)
qed

theorem glider_four_generations_witness:
  "iteration_order (rev \<circ> sorted_list_of_set)
   \<and> generations (rev \<circ> sorted_list_of_set) 4 {(1, 0), (2, 1), (0, 2), (1, 2), (2, 2)}
       = Inr {(2, 1), (3, 2), (1, 3), (2, 3), (3, 3)}"
proof -
  have a: "iteration_order (rev \<circ> sorted_list_of_set)"
    by (simp add: iteration_order_def)
  have t: "translate (1, 1) glider = {(2, 1), (3, 2), (1, 3), (2, 3), (3, 3)}"
    by (auto simp: translate_def glider_def)
  show ?thesis
    using a glider_four_generations [OF a] unfolding t by (simp add: glider_def)
qed

text \<open>
  C8. The result of \<^verbatim>\<open>next_board_state\<close> depends on the members of the input set only:
  two runs on the same finite set, whose containers iterate in different orders, return
  the same set.
\<close>

theorem next_board_state_order_independent:
  assumes "iteration_order it1" and "iteration_order it2" and "finite L"
  shows "next_board_state it1 L = next_board_state it2 L"
  using assms by (simp add: next_board_state_life)

theorem next_board_state_order_independent_witness:
  "iteration_order sorted_list_of_set \<and> iteration_order (rev \<circ> sorted_list_of_set)
   \<and> finite {(1, 0), (2, 1), (0, 2), (1, 2), (2, 2 :: int) :: cell}
   \<and> next_board_state sorted_list_of_set {(1, 0), (2, 1), (0, 2), (1, 2), (2, 2)}
       = next_board_state (rev \<circ> sorted_list_of_set) {(1, 0), (2, 1), (0, 2), (1, 2), (2, 2)}"
proof -
  have a: "iteration_order sorted_list_of_set"
    by (simp add: iteration_order_def)
  have b: "iteration_order (rev \<circ> sorted_list_of_set)"
    by (simp add: iteration_order_def)
  have c: "finite {(1, 0), (2, 1), (0, 2), (1, 2), (2, 2 :: int) :: cell}"
    by simp
  show ?thesis
    using a b c next_board_state_order_independent [OF a b c] by blast
qed

text \<open>C9. \<^verbatim>\<open>next_board_state\<close> of the empty set is the empty set.\<close>

theorem next_board_state_empty:
  assumes "iteration_order it"
  shows "next_board_state it {} = Inr {}"
proof -
  have "set (it {}) = {}"
    using assms unfolding iteration_order_def by blast
  then have "it {} = []"
    by simp
  then show ?thesis
    by (simp add: next_board_state_def)
qed

theorem next_board_state_empty_witness:
  "iteration_order sorted_list_of_set \<and> next_board_state sorted_list_of_set {} = Inr {}"
proof -
  have a: "iteration_order sorted_list_of_set"
    by (simp add: iteration_order_def)
  show ?thesis
    using a next_board_state_empty [OF a] by blast
qed

text \<open>
  C10. Locality: every cell of \<^verbatim>\<open>next_board_state(L)\<close> is a cell of \<open>L\<close> or lies within
  Chebyshev distance 1 of a cell of \<open>L\<close>; the result is a subset of \<open>L\<close> united with the
  Moore neighbourhoods of radius 1 of the cells of \<open>L\<close>.
\<close>

theorem next_board_state_local:
  assumes "iteration_order it" and "finite L"
  shows "\<exists>R. next_board_state it L = Inr R
           \<and> R \<subseteq> L \<union> (\<Union>l \<in> L. moore 1 l)
           \<and> (\<forall>c \<in> R. c \<in> L \<or> (\<exists>l \<in> L. chebyshev c l \<le> 1))"
proof -
  have sub: "life L \<subseteq> L \<union> (\<Union>l \<in> L. moore 1 l)"
    by (rule life_local)
  have "\<forall>c \<in> life L. c \<in> L \<or> (\<exists>l \<in> L. chebyshev c l \<le> 1)"
  proof
    fix c assume "c \<in> life L"
    then have "c \<in> L \<or> (\<exists>l \<in> L. c \<in> moore 1 l)"
      using sub by blast
    then show "c \<in> L \<or> (\<exists>l \<in> L. chebyshev c l \<le> 1)"
      using moore_chebyshev by blast
  qed
  then show ?thesis
    using next_board_state_life [OF assms] sub by blast
qed

theorem next_board_state_local_witness:
  "iteration_order sorted_list_of_set \<and> finite {(0, 0), (1, 0), (2, 0 :: int) :: cell} \<and>
   (\<exists>R. next_board_state sorted_list_of_set {(0, 0), (1, 0), (2, 0)} = Inr R
      \<and> R \<subseteq> {(0, 0), (1, 0), (2, 0)} \<union> (\<Union>l \<in> {(0, 0), (1, 0), (2, 0)}. moore 1 l)
      \<and> (\<forall>c \<in> R. c \<in> {(0, 0), (1, 0), (2, 0)}
            \<or> (\<exists>l \<in> {(0, 0), (1, 0), (2, 0)}. chebyshev c l \<le> 1)))"
proof -
  have a: "iteration_order sorted_list_of_set"
    by (simp add: iteration_order_def)
  have b: "finite {(0, 0), (1, 0), (2, 0 :: int) :: cell}"
    by simp
  show ?thesis
    using a b next_board_state_local [OF a b] by (intro conjI)
qed

end
